theory Spec2Isabelle
  imports Main "HOL-Library.AList" "HOL-Library.Char_ord" "HOL-Library.List_Lexorder"
begin

section \<open>JavaScript values\<close>

text \<open>
  The server (\<^verbatim>\<open>src/server.js\<close>) is a socket.io event router over four in-memory
  \<^verbatim>\<open>Map\<close>s. Payloads are JavaScript values. Numbers are restricted to the
  integer-valued ones and \<^verbatim>\<open>NaN\<close>, and an integer is taken as exact (beyond
  \<^verbatim>\<open>2^53\<close> JavaScript rounds to the nearest double, which is left out); an object is its list of own properties in
  insertion order (integer-like keys, which JavaScript lists first, are not told apart);
  strings are byte lists and are compared by character code, as the default
  \<^verbatim>\<open>Array.prototype.sort\<close> does. A \<^verbatim>\<open>Map\<close> is the list of its entries in
  insertion order and a \<^verbatim>\<open>Set\<close> the list of its elements.
\<close>

datatype jsnum = NaN | Num int

datatype jsval =
    JUndefined
  | JNull
  | JBool bool
  | JNum jsnum
  | JStr string
  | JArr "jsval list"
  | JObj "(string \<times> jsval) list"

type_synonym jsobj = "(string \<times> jsval) list"

text \<open>Truthiness, as used by \<^verbatim>\<open>||\<close>.\<close>

fun truthy :: "jsval \<Rightarrow> bool" where
  "truthy JUndefined = False"
| "truthy JNull = False"
| "truthy (JBool b) = b"
| "truthy (JNum NaN) = False"
| "truthy (JNum (Num n)) = (n \<noteq> 0)"
| "truthy (JStr s) = (s \<noteq> [])"
| "truthy (JArr _) = True"
| "truthy (JObj _) = True"

text \<open>\<^verbatim>\<open>a || b\<close>\<close>

definition js_or :: "jsval \<Rightarrow> jsval \<Rightarrow> jsval" where
  "js_or a b = (if truthy a then a else b)"

text \<open>\<^verbatim>\<open>o.k\<close>: a missing property reads as \<^verbatim>\<open>undefined\<close>.\<close>

definition obj_get :: "jsobj \<Rightarrow> string \<Rightarrow> jsval" where
  "obj_get ob k = (case map_of ob k of None \<Rightarrow> JUndefined | Some v \<Rightarrow> v)"

text \<open>\<^verbatim>\<open>o?.k\<close> where \<^verbatim>\<open>o\<close> is the result of \<^verbatim>\<open>Map.get\<close>.\<close>

definition opt_get :: "jsobj option \<Rightarrow> string \<Rightarrow> jsval" where
  "opt_get ob k = (case ob of None \<Rightarrow> JUndefined | Some ob' \<Rightarrow> obj_get ob' k)"

text \<open>
  Object spread \<^verbatim>\<open>{ ...a, ...b }\<close>: the properties of \<^verbatim>\<open>b\<close> are written
  over \<^verbatim>\<open>a\<close> one after the other; a key already present keeps its position.
\<close>

definition spread :: "jsobj \<Rightarrow> jsobj \<Rightarrow> jsobj" where
  "spread a b = fold (\<lambda>(k, v). AList.update k v) b a"

text \<open>\<^verbatim>\<open>Set.add\<close> and \<^verbatim>\<open>Set.delete\<close> on a set kept in insertion order.\<close>

definition set_add :: "'a \<Rightarrow> 'a list \<Rightarrow> 'a list" where
  "set_add x xs = (if x \<in> set xs then xs else xs @ [x])"

definition set_delete :: "'a \<Rightarrow> 'a list \<Rightarrow> 'a list" where
  "set_delete x xs = removeAll x xs"

section \<open>The builtin parseInt\<close>

text \<open>
  \<^verbatim>\<open>parseInt(v)\<close> with no radix: \<open>v\<close> is turned into a string, leading white space
  is dropped, a sign is read, \<^verbatim>\<open>0x\<close> or \<^verbatim>\<open>0X\<close> selects radix 16, and the
  longest run of digits is the value; no digit gives \<^verbatim>\<open>NaN\<close>. Strings are UTF-8
  bytes, so a white space character is one to three bytes long: tab, line feed, vertical
  tab, form feed, carriage return, space, U+00A0, U+1680, U+2000 to U+200A, U+2028,
  U+2029, U+202F, U+205F, U+3000 and U+FEFF.
\<close>

definition ws_len :: "string \<Rightarrow> nat" where
  "ws_len s =
     (let b = map (of_char :: char \<Rightarrow> int) (take 3 s) in
      if take 1 b \<in> set [[0x09], [0x0A], [0x0B], [0x0C], [0x0D], [0x20]] then 1
      else if take 2 b = [0xC2, 0xA0] then 2
      else if b \<in> set ([[0xE1, 0x9A, 0x80], [0xE2, 0x80, 0xA8], [0xE2, 0x80, 0xA9],
                         [0xE2, 0x80, 0xAF], [0xE2, 0x81, 0x9F], [0xE3, 0x80, 0x80],
                         [0xEF, 0xBB, 0xBF]]
                        @ map (\<lambda>k. [0xE2, 0x80, k]) [0x80 .. 0x8A])
      then 3
      else 0)"

function strip_ws :: "string \<Rightarrow> string" where
  "strip_ws s = (if ws_len s = 0 then s else strip_ws (drop (ws_len s) s))"
  by pat_completeness auto
termination
proof (relation "measure length")
  show "wf (measure length)" by simp
next
  fix s :: string
  assume a: "ws_len s \<noteq> 0"
  have "s \<noteq> []"
  proof
    assume "s = []"
    then have "ws_len s = 0" by (simp add: ws_len_def)
    with a show False by simp
  qed
  with a show "(drop (ws_len s) s, s) \<in> measure length" by simp
qed

declare strip_ws.simps [simp del]

text \<open>The value of a character as a digit of the radix: \<^verbatim>\<open>0-9\<close>, \<^verbatim>\<open>a-z\<close>, \<^verbatim>\<open>A-Z\<close>.\<close>

definition digit_of :: "int \<Rightarrow> char \<Rightarrow> int option" where
  "digit_of radix c =
     (let k = (of_char c :: int);
          d = (if 48 \<le> k \<and> k \<le> 57 then Some (k - 48)
               else if 97 \<le> k \<and> k \<le> 122 then Some (k - 87)
               else if 65 \<le> k \<and> k \<le> 90 then Some (k - 55)
               else None)
      in case d of None \<Rightarrow> None | Some v \<Rightarrow> if v < radix then Some v else None)"

definition digits_value :: "int \<Rightarrow> string \<Rightarrow> int" where
  "digits_value radix z =
     foldl (\<lambda>acc c. acc * radix + (case digit_of radix c of None \<Rightarrow> 0 | Some v \<Rightarrow> v)) 0 z"

definition parse_string :: "string \<Rightarrow> jsnum" where
  "parse_string inputString =
     (let s1 = strip_ws inputString;
          negative = (take 1 s1 = ''-'');
          s2 = (if take 1 s1 = ''+'' \<or> take 1 s1 = ''-'' then drop 1 s1 else s1);
          hex = (take 2 s2 = ''0x'' \<or> take 2 s2 = ''0X'');
          radix = (if hex then 16 else 10);
          s3 = (if hex then drop 2 s2 else s2);
          z = takeWhile (\<lambda>c. digit_of radix c \<noteq> None) s3
      in if z = [] then NaN
         else Num ((if negative then - 1 else 1) * digits_value radix z))"

function first_digit :: "int \<Rightarrow> int" where
  "first_digit n = (if n < 10 then n else first_digit (n div 10))"
  by pat_completeness auto
termination
  by (relation "measure nat") auto

declare first_digit.simps [simp del]

text \<open>
  The string of a value: \<^verbatim>\<open>undefined\<close>, \<^verbatim>\<open>null\<close>, a boolean, \<^verbatim>\<open>NaN\<close> and
  an object (\<^verbatim>\<open>[object Object]\<close>) have no leading digit. An integer below
  \<^verbatim>\<open>10^21\<close> in magnitude is written with its decimal digits and is read back as itself;
  from \<^verbatim>\<open>10^21\<close> on the string is in exponent notation (\<^verbatim>\<open>1e+21\<close>) and the digits
  read end at the point or the exponent, which leaves the first digit. An array is
  written as its elements joined by commas, so what is read is what would be read from
  its first element.
\<close>

fun parseInt :: "jsval \<Rightarrow> jsnum" where
  "parseInt JUndefined = NaN"
| "parseInt JNull = NaN"
| "parseInt (JBool b) = NaN"
| "parseInt (JNum NaN) = NaN"
| "parseInt (JNum (Num n)) =
     (if \<bar>n\<bar> < 10 ^ 21 then Num n else Num (sgn n * first_digit \<bar>n\<bar>))"
| "parseInt (JStr s) = parse_string s"
| "parseInt (JArr []) = NaN"
| "parseInt (JArr (x # xs)) = parseInt x"
| "parseInt (JObj ob) = NaN"

section \<open>Server state and outbound effects\<close>

record room =
  r_name :: jsval
  r_users :: "string list"
  r_limit :: jsnum
  r_createdBy :: "string option"

record stream =
  st_id :: string
  st_userId :: string
  st_userName :: jsval
  st_userAvatar :: jsval
  st_quality :: jsval
  st_fps :: jsval
  st_viewers :: "string list"
  st_startedAt :: string

record server_state =
  users :: "(string \<times> jsobj) list"
  voiceRooms :: "(string \<times> room) list"
  conversations :: "(string \<times> jsval list) list"
  streams :: "(string \<times> stream) list"

text \<open>
  What a handler asks of socket.io, in call order:
  \<^verbatim>\<open>io.emit(ev, p)\<close>, \<^verbatim>\<open>socket.emit(ev, p)\<close>, \<^verbatim>\<open>io.to(room).emit(ev, p)\<close>,
  \<^verbatim>\<open>socket.to(room).emit(ev, p)\<close>, \<^verbatim>\<open>socket.join(room)\<close> and
  \<^verbatim>\<open>socket.leave(room)\<close>. The socket is named by its id.
\<close>

datatype effect =
    IoEmit string jsval
  | SocketEmit string string jsval
  | IoTo string string jsval
  | SocketTo string string string jsval
  | SocketJoin string string
  | SocketLeave string string

text \<open>The three rooms set up when the module is loaded.\<close>

definition sala_geral :: string where
  "sala_geral = ''Sala Geral''"

definition musica :: string where
  "musica = ''M'' @ [CHR 0xC3, CHR 0xBA] @ ''sica''"

definition init_state :: server_state where
  "init_state = \<lparr>
     users = [],
     voiceRooms =
       [(''general'', \<lparr>r_name = JStr sala_geral, r_users = [], r_limit = Num 0, r_createdBy = None\<rparr>),
        (''gaming'', \<lparr>r_name = JStr ''Gaming'', r_users = [], r_limit = Num 0, r_createdBy = None\<rparr>),
        (''music'', \<lparr>r_name = JStr musica, r_users = [], r_limit = Num 0, r_createdBy = None\<rparr>)],
     conversations = [],
     streams = [] \<rparr>"

section \<open>Direct messages\<close>

definition anonimo :: string where
  "anonimo = ''An'' @ [CHR 0xC3, CHR 0xB4] @ ''nimo''"

text \<open>
  \<^verbatim>\<open>[socket.id, to].sort().join('-')\<close>: the two ids change places only when the
  second is strictly smaller.
\<close>

definition convId :: "string \<Rightarrow> string \<Rightarrow> string" where
  "convId a b = (if b < a then b @ ''-'' @ a else a @ ''-'' @ b)"

record dm_data =
  dm_to :: string
  dm_text :: jsval
  dm_type :: jsval
  dm_audioData :: jsval

text \<open>
  The message object of \<^verbatim>\<open>dm:send\<close>. The generated uuid and the clock reading are
  inputs; \<^verbatim>\<open>type\<close> defaults to \<^verbatim>\<open>'text'\<close> when the payload leaves it undefined.
\<close>

definition dm_message :: "server_state \<Rightarrow> string \<Rightarrow> dm_data \<Rightarrow> string \<Rightarrow> string \<Rightarrow> jsval" where
  "dm_message s sid data uuid now =
     (let sender = map_of (users s) sid in
      JObj [(''id'', JStr uuid),
            (''from'', JStr sid),
            (''fromName'', js_or (opt_get sender ''name'') (JStr anonimo)),
            (''fromAvatar'', opt_get sender ''avatar''),
            (''to'', JStr (dm_to data)),
            (''text'', dm_text data),
            (''type'', (if dm_type data = JUndefined then JStr ''text'' else dm_type data)),
            (''audioData'', dm_audioData data),
            (''timestamp'', JStr now)])"

definition dm_send ::
  "server_state \<Rightarrow> string \<Rightarrow> dm_data \<Rightarrow> string \<Rightarrow> string \<Rightarrow> server_state \<times> effect list" where
  "dm_send s sid data uuid now =
     (let message = dm_message s sid data uuid now;
          cid = convId sid (dm_to data);
          convs = (if map_of (conversations s) cid = None
                   then AList.update cid [] (conversations s)
                   else conversations s);
          stored = (case map_of convs cid of None \<Rightarrow> [] | Some ms \<Rightarrow> ms)
      in (s\<lparr>conversations := AList.update cid (stored @ [message]) convs\<rparr>,
          [IoTo (dm_to data) ''dm:receive'' message,
           SocketEmit sid ''dm:sent'' message]))"

text \<open>\<^verbatim>\<open>conversations.get(convId) || []\<close> and the \<^verbatim>\<open>dm:history\<close> handler.\<close>

definition stored_messages :: "server_state \<Rightarrow> string \<Rightarrow> string \<Rightarrow> jsval list" where
  "stored_messages s sid otherId =
     (case map_of (conversations s) (convId sid otherId) of None \<Rightarrow> [] | Some ms \<Rightarrow> ms)"

definition dm_history :: "server_state \<Rightarrow> string \<Rightarrow> string \<Rightarrow> effect list" where
  "dm_history s sid otherId = [SocketEmit sid ''dm:history'' (JArr (stored_messages s sid otherId))]"

text \<open>
  A run of \<^verbatim>\<open>dm:send\<close> calls between two connections \<open>a\<close> and \<open>b\<close>: each call
  says who sends (\<open>True\<close>: \<open>a\<close> to \<open>b\<close>) and carries the rest of the payload, the
  uuid and the time.
\<close>

type_synonym dm_call = "bool \<times> jsval \<times> jsval \<times> jsval \<times> string \<times> string"

fun call_sender :: "string \<Rightarrow> string \<Rightarrow> dm_call \<Rightarrow> string" where
  "call_sender a b (from_a, _) = (if from_a then a else b)"

fun call_data :: "string \<Rightarrow> string \<Rightarrow> dm_call \<Rightarrow> dm_data" where
  "call_data a b (from_a, txt, ty, audio, _, _) =
     \<lparr>dm_to = (if from_a then b else a), dm_text = txt, dm_type = ty, dm_audioData = audio\<rparr>"

fun call_uuid :: "dm_call \<Rightarrow> string" where
  "call_uuid (_, _, _, _, uuid, _) = uuid"

fun call_now :: "dm_call \<Rightarrow> string" where
  "call_now (_, _, _, _, _, now) = now"

definition call_message :: "server_state \<Rightarrow> string \<Rightarrow> string \<Rightarrow> dm_call \<Rightarrow> jsval" where
  "call_message s a b c = dm_message s (call_sender a b c) (call_data a b c) (call_uuid c) (call_now c)"

fun exchange :: "server_state \<Rightarrow> string \<Rightarrow> string \<Rightarrow> dm_call list \<Rightarrow> server_state" where
  "exchange s a b [] = s"
| "exchange s a b (c # cs) =
     exchange (fst (dm_send s (call_sender a b c) (call_data a b c) (call_uuid c) (call_now c))) a b cs"

section \<open>Presence\<close>

text \<open>
  \<^verbatim>\<open>user:login\<close>: the defaults come first in the object literal and the payload is
  spread after them. The payload is an object.
\<close>

definition user_login :: "server_state \<Rightarrow> string \<Rightarrow> jsobj \<Rightarrow> server_state \<times> effect list" where
  "user_login s sid userData =
     (let us = AList.update sid
                 (spread [(''id'', JStr sid),
                          (''name'', js_or (obj_get userData ''name'') (JStr anonimo)),
                          (''avatar'', js_or (obj_get userData ''avatar'') JNull),
                          (''status'', JStr ''online'')]
                         userData)
                 (users s)
      in (s\<lparr>users := us\<rparr>,
          [IoEmit ''user:online''
             (JObj [(''id'', JStr sid),
                    (''name'', obj_get userData ''name''),
                    (''status'', JStr ''online'')]),
           SocketEmit sid ''users:list'' (JArr (map (\<lambda>(_, u). JObj u) us))]))"

definition user_update :: "server_state \<Rightarrow> string \<Rightarrow> jsobj \<Rightarrow> server_state \<times> effect list" where
  "user_update s sid userData =
     (case map_of (users s) sid of
        None \<Rightarrow> (s, [])
      | Some user \<Rightarrow>
          (s\<lparr>users := AList.update sid (spread user userData) (users s)\<rparr>,
           [IoEmit ''user:updated'' (JObj (spread [(''id'', JStr sid)] userData))]))"

definition user_status :: "server_state \<Rightarrow> string \<Rightarrow> jsval \<Rightarrow> server_state \<times> effect list" where
  "user_status s sid status =
     (case map_of (users s) sid of
        None \<Rightarrow> (s, [])
      | Some user \<Rightarrow>
          (s\<lparr>users := AList.update sid (AList.update ''status'' status user) (users s)\<rparr>,
           [IoEmit ''user:status-changed'' (JObj [(''id'', JStr sid), (''status'', status)])]))"

section \<open>Voice rooms\<close>

definition sala_nao_encontrada :: string where
  "sala_nao_encontrada = ''Sala n'' @ [CHR 0xC3, CHR 0xA3] @ ''o encontrada''"

definition voice_error :: "string \<Rightarrow> string \<Rightarrow> effect" where
  "voice_error sid msg = SocketEmit sid ''voice:error'' (JObj [(''message'', JStr msg)])"

text \<open>\<^verbatim>\<open>room.limit > 0 && room.users.size >= room.limit\<close>; both comparisons are false on \<^verbatim>\<open>NaN\<close>.\<close>

definition room_full :: "room \<Rightarrow> bool" where
  "room_full r = (case r_limit r of NaN \<Rightarrow> False | Num n \<Rightarrow> 0 < n \<and> n \<le> int (length (r_users r)))"

definition user_left :: "string \<Rightarrow> string \<Rightarrow> jsval \<Rightarrow> effect" where
  "user_left rid sid uname =
     IoTo (''voice:'' @ rid) ''voice:user-left''
       (JObj [(''roomId'', JStr rid), (''userId'', JStr sid), (''userName'', uname)])"

definition room_updated :: "string \<Rightarrow> nat \<Rightarrow> effect" where
  "room_updated rid n =
     IoEmit ''voice:room-updated'' (JObj [(''roomId'', JStr rid), (''userCount'', JNum (Num (int n)))])"

text \<open>
  The \<^verbatim>\<open>voiceRooms.forEach\<close> of \<^verbatim>\<open>voice:join\<close> (``Sai de outras salas de voz''):
  every room is visited in insertion order.
\<close>

fun leave_rooms :: "string \<Rightarrow> jsval \<Rightarrow> (string \<times> room) list \<Rightarrow> (string \<times> room) list \<times> effect list" where
  "leave_rooms sid uname [] = ([], [])"
| "leave_rooms sid uname ((rid, r) # rest) =
     (let (rest', effs) = leave_rooms sid uname rest in
      if sid \<in> set (r_users r)
      then ((rid, r\<lparr>r_users := set_delete sid (r_users r)\<rparr>) # rest',
            SocketLeave sid (''voice:'' @ rid) # user_left rid sid uname # effs)
      else ((rid, r) # rest', effs))"

definition members_of :: "(string \<times> room) list \<Rightarrow> string \<Rightarrow> string list" where
  "members_of rooms rid = (case map_of rooms rid of None \<Rightarrow> [] | Some r \<Rightarrow> r_users r)"

definition voice_join :: "server_state \<Rightarrow> string \<Rightarrow> string \<Rightarrow> server_state \<times> effect list" where
  "voice_join s sid roomId =
     (case map_of (voiceRooms s) roomId of
        None \<Rightarrow> (s, [voice_error sid sala_nao_encontrada])
      | Some room \<Rightarrow>
          if room_full room then (s, [voice_error sid ''Sala cheia''])
          else
            (let user = map_of (users s) sid;
                 (rooms1, left) = leave_rooms sid (opt_get user ''name'') (voiceRooms s);
                 rooms2 = AList.map_entry roomId (\<lambda>r. r\<lparr>r_users := set_add sid (r_users r)\<rparr>) rooms1;
                 participants =
                   map (\<lambda>i. JObj [(''id'', JStr i),
                                  (''name'', opt_get (map_of (users s) i) ''name''),
                                  (''avatar'', opt_get (map_of (users s) i) ''avatar'')])
                       (members_of rooms2 roomId)
             in (s\<lparr>voiceRooms := rooms2\<rparr>,
                 left @
                 [SocketJoin sid (''voice:'' @ roomId),
                  SocketTo sid (''voice:'' @ roomId) ''voice:user-joined''
                    (JObj [(''roomId'', JStr roomId), (''userId'', JStr sid),
                           (''userName'', opt_get user ''name''),
                           (''userAvatar'', opt_get user ''avatar'')]),
                  SocketEmit sid ''voice:joined''
                    (JObj [(''roomId'', JStr roomId), (''participants'', JArr participants)]),
                  room_updated roomId (length (members_of rooms2 roomId))])))"

definition voice_leave :: "server_state \<Rightarrow> string \<Rightarrow> string \<Rightarrow> server_state \<times> effect list" where
  "voice_leave s sid roomId =
     (case map_of (voiceRooms s) roomId of
        None \<Rightarrow> (s, [])
      | Some room \<Rightarrow>
          if sid \<in> set (r_users room)
          then
            (let rooms1 = AList.map_entry roomId (\<lambda>r. r\<lparr>r_users := set_delete sid (r_users r)\<rparr>) (voiceRooms s)
             in (s\<lparr>voiceRooms := rooms1\<rparr>,
                 [SocketLeave sid (''voice:'' @ roomId),
                  user_left roomId sid (opt_get (map_of (users s) sid) ''name''),
                  room_updated roomId (length (members_of rooms1 roomId))]))
          else (s, []))"

record create_data =
  cr_name :: jsval
  cr_limit :: jsval

text \<open>
  \<^verbatim>\<open>voice:create-room\<close>. The id is the first eight characters of a generated uuid,
  which is an input. \<^verbatim>\<open>limit\<close> defaults to 10 when the payload leaves it
  undefined; the room stores \<^verbatim>\<open>parseInt(limit)\<close> and the notification carries
  \<^verbatim>\<open>limit\<close> itself. \<^verbatim>\<open>Map.set\<close> replaces the value of a key that is already
  there.
\<close>

definition voice_create_room ::
  "server_state \<Rightarrow> string \<Rightarrow> create_data \<Rightarrow> string \<Rightarrow> server_state \<times> effect list" where
  "voice_create_room s sid data uuid =
     (let limit = (if cr_limit data = JUndefined then JNum (Num 10) else cr_limit data);
          roomId = take 8 uuid;
          user = map_of (users s) sid
      in (s\<lparr>voiceRooms :=
              AList.update roomId
                \<lparr>r_name = cr_name data, r_users = [], r_limit = parseInt limit, r_createdBy = Some sid\<rparr>
                (voiceRooms s)\<rparr>,
          [IoEmit ''voice:room-created''
             (JObj [(''id'', JStr roomId), (''name'', cr_name data), (''limit'', limit),
                    (''userCount'', JNum (Num 0)), (''createdBy'', opt_get user ''name'')])]))"

section \<open>Streams\<close>

record start_data =
  ss_quality :: jsval
  ss_fps :: jsval

definition stream_start ::
  "server_state \<Rightarrow> string \<Rightarrow> start_data \<Rightarrow> string \<Rightarrow> string \<Rightarrow> server_state \<times> effect list" where
  "stream_start s sid data uuid now =
     (let user = map_of (users s) sid;
          streamId = take 8 uuid
      in (s\<lparr>streams :=
              AList.update streamId
                \<lparr>st_id = streamId, st_userId = sid,
                 st_userName = opt_get user ''name'', st_userAvatar = opt_get user ''avatar'',
                 st_quality = ss_quality data, st_fps = ss_fps data,
                 st_viewers = [], st_startedAt = now\<rparr>
                (streams s)\<rparr>,
          [SocketJoin sid (''stream:'' @ streamId),
           IoEmit ''stream:started''
             (JObj [(''streamId'', JStr streamId), (''userId'', JStr sid),
                    (''userName'', opt_get user ''name''), (''userAvatar'', opt_get user ''avatar'')]),
           SocketEmit sid ''stream:created'' (JObj [(''streamId'', JStr streamId)])]))"

definition stream_ended :: "string \<Rightarrow> effect" where
  "stream_ended streamId =
     IoTo (''stream:'' @ streamId) ''stream:ended'' (JObj [(''streamId'', JStr streamId)])"

definition stream_stop :: "server_state \<Rightarrow> string \<Rightarrow> string \<Rightarrow> server_state \<times> effect list" where
  "stream_stop s sid streamId =
     (case map_of (streams s) streamId of
        None \<Rightarrow> (s, [])
      | Some st \<Rightarrow>
          if st_userId st = sid
          then (s\<lparr>streams := AList.delete streamId (streams s)\<rparr>, [stream_ended streamId])
          else (s, []))"

definition stream_watch :: "server_state \<Rightarrow> string \<Rightarrow> string \<Rightarrow> server_state \<times> effect list" where
  "stream_watch s sid streamId =
     (case map_of (streams s) streamId of
        None \<Rightarrow> (s, [])
      | Some st \<Rightarrow>
          (let viewers = set_add sid (st_viewers st)
           in (s\<lparr>streams := AList.map_entry streamId (\<lambda>x. x\<lparr>st_viewers := set_add sid (st_viewers x)\<rparr>) (streams s)\<rparr>,
               [SocketJoin sid (''stream:'' @ streamId),
                IoTo (''stream:'' @ streamId) ''stream:viewer-joined''
                  (JObj [(''streamId'', JStr streamId), (''viewerCount'', JNum (Num (int (length viewers))))]),
                IoTo (st_userId st) ''stream:request-offer'' (JObj [(''viewerId'', JStr sid)])])))"

section \<open>Disconnect\<close>

text \<open>The first loop of the \<^verbatim>\<open>disconnect\<close> handler (``Remove de salas de voz'').\<close>

fun drop_rooms :: "string \<Rightarrow> jsval \<Rightarrow> (string \<times> room) list \<Rightarrow> (string \<times> room) list \<times> effect list" where
  "drop_rooms sid uname [] = ([], [])"
| "drop_rooms sid uname ((rid, r) # rest) =
     (let (rest', effs) = drop_rooms sid uname rest in
      if sid \<in> set (r_users r)
      then ((rid, r\<lparr>r_users := set_delete sid (r_users r)\<rparr>) # rest',
            user_left rid sid uname # room_updated rid (length (set_delete sid (r_users r))) # effs)
      else ((rid, r) # rest', effs))"

text \<open>
  The second loop (``Encerra streams''): a stream of the socket is announced as ended and
  deleted from the map, and the socket is taken out of the viewers of every stream visited
  (for a deleted stream that touches only the object no longer in the map).
\<close>

fun end_streams :: "string \<Rightarrow> (string \<times> stream) list \<Rightarrow> (string \<times> stream) list \<times> effect list" where
  "end_streams sid [] = ([], [])"
| "end_streams sid ((streamId, st) # rest) =
     (let (rest', effs) = end_streams sid rest in
      if st_userId st = sid
      then (rest', stream_ended streamId # effs)
      else ((streamId, st\<lparr>st_viewers := set_delete sid (st_viewers st)\<rparr>) # rest', effs))"

definition user_offline :: "string \<Rightarrow> effect" where
  "user_offline sid = IoEmit ''user:offline'' (JObj [(''id'', JStr sid)])"

definition disconnect :: "server_state \<Rightarrow> string \<Rightarrow> server_state \<times> effect list" where
  "disconnect s sid =
     (let user = map_of (users s) sid;
          (rooms1, effs1) = drop_rooms sid (opt_get user ''name'') (voiceRooms s);
          (streams1, effs2) = end_streams sid (streams s)
      in (s\<lparr>voiceRooms := rooms1, streams := streams1, users := AList.delete sid (users s)\<rparr>,
          effs1 @ effs2 @ [user_offline sid]))"

section \<open>The dispatcher\<close>

text \<open>
  One inbound event, tagged with the socket it arrived on. Each handler runs to
  completion before the next event is taken.
\<close>

datatype event =
    UserLogin string jsobj
  | UserUpdate string jsobj
  | UserStatus string jsval
  | DmSend string dm_data string string
  | VoiceJoin string string
  | VoiceLeave string string
  | VoiceCreateRoom string create_data string
  | StreamStart string start_data string string
  | StreamStop string string
  | StreamWatch string string
  | Disconnect string

fun step :: "server_state \<Rightarrow> event \<Rightarrow> server_state \<times> effect list" where
  "step s (UserLogin sid userData) = user_login s sid userData"
| "step s (UserUpdate sid userData) = user_update s sid userData"
| "step s (UserStatus sid status) = user_status s sid status"
| "step s (DmSend sid data uuid now) = dm_send s sid data uuid now"
| "step s (VoiceJoin sid roomId) = voice_join s sid roomId"
| "step s (VoiceLeave sid roomId) = voice_leave s sid roomId"
| "step s (VoiceCreateRoom sid data uuid) = voice_create_room s sid data uuid"
| "step s (StreamStart sid data uuid now) = stream_start s sid data uuid now"
| "step s (StreamStop sid streamId) = stream_stop s sid streamId"
| "step s (StreamWatch sid streamId) = stream_watch s sid streamId"
| "step s (Disconnect sid) = disconnect s sid"

fun run :: "server_state \<Rightarrow> event list \<Rightarrow> server_state" where
  "run s [] = s"
| "run s (ev # evs) = run (fst (step s ev)) evs"

text \<open>
  Who gets an emission, by socket.io's rules: \<^verbatim>\<open>io.emit\<close> reaches every connected
  socket, \<^verbatim>\<open>socket.emit\<close> the socket itself, \<^verbatim>\<open>io.to(room)\<close> every socket in the
  room, \<^verbatim>\<open>socket.to(room)\<close> every socket in the room but the sender. Every socket
  is in the room named by its own id; \<open>joined\<close> lists the other memberships as pairs of
  socket and room.
\<close>

definition in_room :: "(string \<times> string) list \<Rightarrow> string \<Rightarrow> string \<Rightarrow> bool" where
  "in_room joined rm c = (c = rm \<or> (c, rm) \<in> set joined)"

fun recipients :: "string list \<Rightarrow> (string \<times> string) list \<Rightarrow> effect \<Rightarrow> string list" where
  "recipients conns joined (IoEmit ev p) = conns"
| "recipients conns joined (SocketEmit sid ev p) = filter (\<lambda>c. c = sid) conns"
| "recipients conns joined (IoTo rm ev p) = filter (in_room joined rm) conns"
| "recipients conns joined (SocketTo sid rm ev p) = filter (\<lambda>c. c \<noteq> sid \<and> in_room joined rm c) conns"
| "recipients conns joined (SocketJoin sid rm) = []"
| "recipients conns joined (SocketLeave sid rm) = []"

section \<open>Notions used in the results\<close>

text \<open>The ids of the voice rooms whose membership set holds the connection \<open>c\<close>.\<close>

definition rooms_of :: "server_state \<Rightarrow> string \<Rightarrow> string list" where
  "rooms_of s c = map fst (filter (\<lambda>(rid, r). c \<in> set (r_users r)) (voiceRooms s))"

text \<open>What both room loops do to one entry of the room map, and the test they apply.\<close>

definition clear :: "string \<Rightarrow> string \<times> room \<Rightarrow> string \<times> room" where
  "clear sid p = (fst p, (snd p)\<lparr>r_users := set_delete sid (r_users (snd p))\<rparr>)"

definition holds :: "string \<Rightarrow> string \<times> room \<Rightarrow> bool" where
  "holds c p = (c \<in> set (r_users (snd p)))"

text \<open>Room ids are unique and no connection is in two membership sets.\<close>

definition one_room_each :: "server_state \<Rightarrow> bool" where
  "one_room_each s = (distinct (map fst (voiceRooms s)) \<and> (\<forall>c. length (rooms_of s c) \<le> 1))"

section \<open>Conversation store: results\<close>

lemma convId_commute: "convId a b = convId b a"
  by (auto simp: convId_def)

lemma convId_call: "convId (call_sender a b c) (dm_to (call_data a b c)) = convId a b"
  by (cases c) (auto simp: convId_commute)

lemma dm_send_users: "users (fst (dm_send s sid data uuid now)) = users s"
  by (simp add: dm_send_def Let_def)

lemma dm_message_users: "users s' = users s \<Longrightarrow> dm_message s' sid data uuid now = dm_message s sid data uuid now"
  by (simp add: dm_message_def)

lemma stored_messages_dm_send:
  "stored_messages (fst (dm_send s sid data uuid now)) sid (dm_to data)
     = stored_messages s sid (dm_to data) @ [dm_message s sid data uuid now]"
  by (simp add: stored_messages_def dm_send_def Let_def update_conv' split: option.splits)

lemma stored_messages_commute: "stored_messages s a b = stored_messages s b a"
  by (simp add: stored_messages_def convId_commute [of a b])

lemma stored_messages_call:
  "stored_messages (fst (dm_send s (call_sender a b c) (call_data a b c) u n)) a b
     = stored_messages s a b @ [dm_message s (call_sender a b c) (call_data a b c) u n]"
proof (cases "fst c")
  case True
  then show ?thesis
    using stored_messages_dm_send [of s a "call_data a b c" u n]
    by (cases c) simp
next
  case False
  then show ?thesis
    using stored_messages_dm_send [of s b "call_data a b c" u n]
    by (cases c) (simp add: stored_messages_commute [of _ b a])
qed

lemma exchange_users: "users (exchange s a b cs) = users s"
  by (induction cs arbitrary: s) (simp_all add: dm_send_users)

lemma stored_messages_exchange:
  "stored_messages (exchange s a b cs) a b = stored_messages s a b @ map (call_message s a b) cs"
proof (induction cs arbitrary: s)
  case Nil
  then show ?case by simp
next
  case (Cons c cs)
  let ?s1 = "fst (dm_send s (call_sender a b c) (call_data a b c) (call_uuid c) (call_now c))"
  have u: "users ?s1 = users s"
    by (rule dm_send_users)
  have m: "map (call_message ?s1 a b) cs = map (call_message s a b) cs"
    by (simp add: call_message_def dm_message_users [OF u])
  show ?case
    by (simp add: Cons.IH m stored_messages_call) (simp add: call_message_def)
qed

section \<open>Voice rooms: results\<close>

lemma rooms_of_holds: "rooms_of s c = map fst (filter (holds c) (voiceRooms s))"
proof -
  have "(\<lambda>(rid, r). c \<in> set (r_users r)) = holds c"
    by (rule ext) (simp add: holds_def split_beta)
  then show ?thesis by (simp add: rooms_of_def)
qed

lemma holds_clear_self: "\<not> holds sid (clear sid p)"
  by (simp add: holds_def clear_def set_delete_def)

lemma holds_clear_other: "c \<noteq> sid \<Longrightarrow> holds c (clear sid p) = holds c p"
  by (simp add: holds_def clear_def set_delete_def)

lemma fst_clear: "fst (clear sid p) = fst p"
  by (simp add: clear_def)

lemma filter_clear_self: "filter (holds sid) (map (clear sid) rooms) = []"
  by (induction rooms) (simp_all add: holds_clear_self)

lemma filter_clear_other:
  "c \<noteq> sid \<Longrightarrow> map fst (filter (holds c) (map (clear sid) rooms)) = map fst (filter (holds c) rooms)"
  by (induction rooms) (simp_all add: holds_clear_other fst_clear)

lemma filter_map_entry_same:
  assumes "\<And>v. P (k, f v) = P (k, v)"
  shows "map fst (filter P (AList.map_entry k f xs)) = map fst (filter P xs)"
proof (induction xs)
  case Nil
  then show ?case by simp
next
  case (Cons p xs)
  obtain k' v where p: "p = (k', v)" by (cases p)
  show ?case
  proof (cases "k' = k")
    case True
    then show ?thesis using assms [of v] by (simp add: p)
  next
    case False
    then show ?thesis using Cons.IH by (simp add: p)
  qed
qed

lemma filter_map_entry_le:
  assumes "\<And>v. P (k, f v) \<Longrightarrow> P (k, v)"
  shows "length (filter P (AList.map_entry k f xs)) \<le> length (filter P xs)"
proof (induction xs)
  case Nil
  then show ?case by simp
next
  case (Cons p xs)
  obtain k' v where p: "p = (k', v)" by (cases p)
  show ?case
  proof (cases "k' = k")
    case True
    then show ?thesis using assms [of v] by (auto simp: p)
  next
    case False
    then show ?thesis using Cons.IH by (simp add: p)
  qed
qed

lemma filter_map_entry_empty:
  "filter P xs = [] \<Longrightarrow> length (filter P (AList.map_entry k f xs)) \<le> 1"
proof (induction xs)
  case Nil
  then show ?case by simp
next
  case (Cons p xs)
  obtain k' v where p: "p = (k', v)" by (cases p)
  from Cons.prems have np: "\<not> P p" and e: "filter P xs = []"
    by (simp_all split: if_splits)
  show ?case
  proof (cases "k' = k")
    case True
    then show ?thesis using e by (simp add: p)
  next
    case False
    then show ?thesis using Cons.IH [OF e] np by (simp add: p)
  qed
qed

lemma filter_update_le:
  assumes "\<not> P (k, v)"
  shows "length (filter P (AList.update k v xs)) \<le> length (filter P xs)"
proof (induction xs)
  case Nil
  then show ?case using assms by simp
next
  case (Cons p xs)
  obtain k' v' where p: "p = (k', v')" by (cases p)
  show ?case
  proof (cases "k' = k")
    case True
    then show ?thesis using assms by (simp add: p)
  next
    case False
    then show ?thesis using Cons.IH by (simp add: p)
  qed
qed

lemma map_fst_map_entry: "map fst (AList.map_entry k f xs) = map fst xs"
  by (induction xs) auto


lemma map_fst_clear: "map (fst \<circ> clear sid) rooms = map fst rooms"
  by (induction rooms) (simp_all add: fst_clear)

lemma set_delete_absent: "x \<notin> set xs \<Longrightarrow> set_delete x xs = xs"
  by (simp add: set_delete_def)

lemma fst_leave_rooms:
  "fst (leave_rooms sid u rooms) = map (clear sid) rooms"
proof (induction rooms)
  case Nil
  then show ?case by simp
next
  case (Cons p rooms)
  obtain rid r where p: "p = (rid, r)" by (cases p)
  obtain rest effs where l: "leave_rooms sid u rooms = (rest, effs)" by (cases "leave_rooms sid u rooms")
  from Cons l have "rest = map (clear sid) rooms" by simp
  then show ?case by (simp add: p l clear_def set_delete_absent)
qed

lemma fst_drop_rooms:
  "fst (drop_rooms sid u rooms) = map (clear sid) rooms"
proof (induction rooms)
  case Nil
  then show ?case by simp
next
  case (Cons p rooms)
  obtain rid r where p: "p = (rid, r)" by (cases p)
  obtain rest effs where l: "drop_rooms sid u rooms = (rest, effs)" by (cases "drop_rooms sid u rooms")
  from Cons l have "rest = map (clear sid) rooms" by simp
  then show ?case by (simp add: p l clear_def set_delete_absent)
qed

lemma voiceRooms_voice_join:
  "voiceRooms (fst (voice_join s sid roomId)) =
     (case map_of (voiceRooms s) roomId of
        None \<Rightarrow> voiceRooms s
      | Some room \<Rightarrow>
          if room_full room then voiceRooms s
          else AList.map_entry roomId (\<lambda>r. r\<lparr>r_users := set_add sid (r_users r)\<rparr>)
                 (map (clear sid) (voiceRooms s)))"
  by (simp add: voice_join_def Let_def split_beta fst_leave_rooms split: option.splits)

lemma voiceRooms_voice_leave:
  "voiceRooms (fst (voice_leave s sid roomId)) = voiceRooms s \<or>
   voiceRooms (fst (voice_leave s sid roomId)) =
     AList.map_entry roomId (\<lambda>r. r\<lparr>r_users := set_delete sid (r_users r)\<rparr>) (voiceRooms s)"
  by (simp add: voice_leave_def Let_def split: option.splits)

lemma voiceRooms_disconnect:
  "voiceRooms (fst (disconnect s sid)) = map (clear sid) (voiceRooms s)"
  by (simp add: disconnect_def Let_def split_beta fst_drop_rooms)

lemma voiceRooms_voice_create_room:
  "voiceRooms (fst (voice_create_room s sid data uuid)) =
     AList.update (take 8 uuid)
       \<lparr>r_name = cr_name data, r_users = [],
        r_limit = parseInt (if cr_limit data = JUndefined then JNum (Num 10) else cr_limit data),
        r_createdBy = Some sid\<rparr> (voiceRooms s)"
  by (simp add: voice_create_room_def Let_def)

lemma one_room_each_holds:
  "one_room_each s = (distinct (map fst (voiceRooms s)) \<and> (\<forall>c. length (filter (holds c) (voiceRooms s)) \<le> 1))"
  by (simp add: one_room_each_def rooms_of_holds)

lemma one_room_clear:
  assumes "one_room_each s" and v: "voiceRooms s' = map (clear sid) (voiceRooms s)"
  shows "one_room_each s'"
proof -
  have d: "distinct (map fst (voiceRooms s'))"
    using assms by (simp add: one_room_each_holds map_fst_clear)
  have "length (filter (holds c) (voiceRooms s')) \<le> 1" for c
  proof (cases "c = sid")
    case True
    then show ?thesis by (simp add: v filter_clear_self)
  next
    case False
    have "length (filter (holds c) (voiceRooms s')) = length (map fst (filter (holds c) (voiceRooms s')))"
      by simp
    also have "\<dots> = length (map fst (filter (holds c) (voiceRooms s)))"
      by (simp only: v filter_clear_other [OF False])
    also have "\<dots> \<le> 1"
      using assms(1) by (simp add: one_room_each_holds)
    finally show ?thesis .
  qed
  with d show ?thesis by (simp add: one_room_each_holds)
qed

lemma one_room_enter:
  assumes "one_room_each s"
    and v: "voiceRooms s' = AList.map_entry roomId (\<lambda>r. r\<lparr>r_users := set_add sid (r_users r)\<rparr>)
                              (map (clear sid) (voiceRooms s))"
  shows "one_room_each s'"
proof -
  let ?f = "\<lambda>r. r\<lparr>r_users := set_add sid (r_users r)\<rparr>"
  let ?xs = "map (clear sid) (voiceRooms s)"
  have d: "distinct (map fst (voiceRooms s'))"
    using assms by (simp add: one_room_each_holds map_fst_map_entry map_fst_clear)
  have "length (filter (holds c) (voiceRooms s')) \<le> 1" for c
  proof (cases "c = sid")
    case True
    then show ?thesis
      using filter_map_entry_empty [OF filter_clear_self [of sid "voiceRooms s"], of roomId ?f]
      by (simp add: v)
  next
    case False
    have same: "holds c (roomId, ?f r) = holds c (roomId, r)" for r
      using False by (simp add: holds_def set_add_def)
    have "length (filter (holds c) (voiceRooms s')) = length (map fst (filter (holds c) (voiceRooms s')))"
      by simp
    also have "\<dots> = length (map fst (filter (holds c) ?xs))"
      by (simp only: v filter_map_entry_same [of "holds c" roomId ?f, OF same])
    also have "\<dots> = length (map fst (filter (holds c) (voiceRooms s)))"
      by (simp only: filter_clear_other [OF False])
    also have "\<dots> \<le> 1"
      using assms(1) by (simp add: one_room_each_holds)
    finally show ?thesis .
  qed
  with d show ?thesis by (simp add: one_room_each_holds)
qed

lemma one_room_exit:
  assumes "one_room_each s"
    and v: "voiceRooms s' = AList.map_entry roomId (\<lambda>r. r\<lparr>r_users := set_delete sid (r_users r)\<rparr>) (voiceRooms s)"
  shows "one_room_each s'"
proof -
  let ?f = "\<lambda>r. r\<lparr>r_users := set_delete sid (r_users r)\<rparr>"
  have d: "distinct (map fst (voiceRooms s'))"
    using assms by (simp add: one_room_each_holds map_fst_map_entry)
  have "length (filter (holds c) (voiceRooms s')) \<le> 1" for c
  proof -
    have sub: "holds c (roomId, ?f r) \<Longrightarrow> holds c (roomId, r)" for r
      by (simp add: holds_def set_delete_def)
    have "length (filter (holds c) (voiceRooms s')) \<le> length (filter (holds c) (voiceRooms s))"
      unfolding v by (rule filter_map_entry_le) (rule sub)
    also have "\<dots> \<le> 1"
      using assms(1) by (simp add: one_room_each_holds)
    finally show ?thesis .
  qed
  with d show ?thesis by (simp add: one_room_each_holds)
qed

lemma one_room_create:
  assumes "one_room_each s"
    and v: "voiceRooms s' = AList.update k \<lparr>r_name = n, r_users = [], r_limit = l, r_createdBy = cb\<rparr> (voiceRooms s)"
  shows "one_room_each s'"
proof -
  have d: "distinct (map fst (voiceRooms s'))"
    using assms by (simp add: one_room_each_holds distinct_update)
  have "length (filter (holds c) (voiceRooms s')) \<le> 1" for c
  proof -
    have "length (filter (holds c) (voiceRooms s')) \<le> length (filter (holds c) (voiceRooms s))"
      unfolding v by (rule filter_update_le) (simp add: holds_def)
    also have "\<dots> \<le> 1"
      using assms(1) by (simp add: one_room_each_holds)
    finally show ?thesis .
  qed
  with d show ?thesis by (simp add: one_room_each_holds)
qed

lemma one_room_same:
  "one_room_each s \<Longrightarrow> voiceRooms s' = voiceRooms s \<Longrightarrow> one_room_each s'"
  by (simp add: one_room_each_def rooms_of_def)

lemma one_room_step: "one_room_each s \<Longrightarrow> one_room_each (fst (step s ev))"
proof (cases ev)
  case (UserLogin sid userData)
  assume "one_room_each s"
  then show ?thesis
    by (rule one_room_same) (simp add: UserLogin user_login_def Let_def)
next
  case (UserUpdate sid userData)
  assume "one_room_each s"
  then show ?thesis
    by (rule one_room_same) (simp add: UserUpdate user_update_def split: option.splits)
next
  case (UserStatus sid status)
  assume "one_room_each s"
  then show ?thesis
    by (rule one_room_same) (simp add: UserStatus user_status_def split: option.splits)
next
  case (DmSend sid data uuid now)
  assume "one_room_each s"
  then show ?thesis
    by (rule one_room_same) (simp add: DmSend dm_send_def Let_def)
next
  case (VoiceJoin sid roomId)
  assume i: "one_room_each s"
  show ?thesis
  proof (cases "map_of (voiceRooms s) roomId")
    case None
    with i show ?thesis
      by (simp add: VoiceJoin one_room_same [OF i] voiceRooms_voice_join)
  next
    case (Some room)
    show ?thesis
    proof (cases "room_full room")
      case True
      with Some i show ?thesis
        by (simp add: VoiceJoin one_room_same [OF i] voiceRooms_voice_join)
    next
      case False
      with Some show ?thesis
        by (simp add: VoiceJoin one_room_enter [OF i] voiceRooms_voice_join)
    qed
  qed
next
  case (VoiceLeave sid roomId)
  assume i: "one_room_each s"
  show ?thesis
    using voiceRooms_voice_leave [of s sid roomId] one_room_same [OF i] one_room_exit [OF i]
    by (auto simp: VoiceLeave)
next
  case (VoiceCreateRoom sid data uuid)
  assume i: "one_room_each s"
  show ?thesis
    by (simp add: VoiceCreateRoom one_room_create [OF i] voiceRooms_voice_create_room)
next
  case (StreamStart sid data uuid now)
  assume "one_room_each s"
  then show ?thesis
    by (rule one_room_same) (simp add: StreamStart stream_start_def Let_def)
next
  case (StreamStop sid streamId)
  assume "one_room_each s"
  then show ?thesis
    by (rule one_room_same) (simp add: StreamStop stream_stop_def split: option.splits)
next
  case (StreamWatch sid streamId)
  assume "one_room_each s"
  then show ?thesis
    by (rule one_room_same) (simp add: StreamWatch stream_watch_def Let_def split: option.splits)
next
  case (Disconnect sid)
  assume i: "one_room_each s"
  show ?thesis
    using one_room_clear [OF i voiceRooms_disconnect [of s sid]] by (simp add: Disconnect)
qed

lemma one_room_run: "one_room_each s \<Longrightarrow> one_room_each (run s evs)"
  by (induction evs arbitrary: s) (simp_all add: one_room_step)

lemma one_room_init: "one_room_each init_state"
  by (simp add: one_room_each_def rooms_of_def init_state_def)

text \<open>
  C1. Whatever events the server has handled since it started, a connection \<open>c\<close> is in
  the membership set of at most one voice room (and room ids are unique, so that the
  entries counted are the rooms). The reason is the first loop of \<^verbatim>\<open>voice:join\<close>:
  after it no room holds \<open>c\<close>, and only then is \<open>c\<close> added to the target room.
\<close>

theorem at_most_one_voice_room:
  "length (rooms_of (run init_state evs) c) \<le> 1
   \<and> distinct (map fst (voiceRooms (run init_state evs)))
   \<and> rooms_of (s\<lparr>voiceRooms := fst (leave_rooms c uname (voiceRooms s))\<rparr>) c = []"
proof -
  have "one_room_each (run init_state evs)"
    by (rule one_room_run) (rule one_room_init)
  then show ?thesis
    by (simp add: one_room_each_def rooms_of_holds fst_leave_rooms filter_clear_self)
qed

section \<open>Conversation store: claims\<close>

text \<open>
  C4. After any number of \<^verbatim>\<open>dm:send\<close> calls between \<open>a\<close> and \<open>b\<close>, in either
  direction, \<^verbatim>\<open>dm:history\<close> answers \<open>a\<close> asking about \<open>b\<close> with what was stored for
  the pair before, followed by exactly the messages of those calls in call order; \<open>b\<close>
  asking about \<open>a\<close> is sent the same sequence, the key being the same for both orders.
  Started from the initial state, where nothing is stored, the history is exactly the
  messages of the calls.
\<close>

theorem history_in_call_order_and_symmetric:
  "dm_history (exchange s a b cs) a b
     = [SocketEmit a ''dm:history'' (JArr (stored_messages s a b @ map (call_message s a b) cs))]
   \<and> dm_history (exchange s a b cs) b a
     = [SocketEmit b ''dm:history'' (JArr (stored_messages s a b @ map (call_message s a b) cs))]
   \<and> dm_history (exchange init_state a b cs) a b
     = [SocketEmit a ''dm:history'' (JArr (map (call_message init_state a b) cs))]
   \<and> convId a b = convId b a"
proof -
  have e: "stored_messages init_state a b = []"
    by (simp add: stored_messages_def init_state_def)
  have c: "convId a b = convId b a"
    by (rule convId_commute)
  show ?thesis
    using c
    by (simp add: dm_history_def stored_messages_exchange e
          stored_messages_commute [of "exchange s a b cs" b a])
qed

text \<open>
  C9. The key is not injective on unordered pairs: the pairs \<open>{a-b, c}\<close> and
  \<open>{a, b-c}\<close> are different and both have the key \<open>a-b-c\<close>, so a message that
  \<open>a-b\<close> sends to \<open>c\<close> is in the history that \<open>a\<close> is given for \<open>b-c\<close>.
\<close>

theorem conversation_key_collision:
  "{''a-b'', ''c''} \<noteq> {''a'', ''b-c''}
   \<and> convId ''a-b'' ''c'' = ''a-b-c'' \<and> convId ''a'' ''b-c'' = ''a-b-c''
   \<and> dm_history (fst (dm_send s ''a-b'' (data\<lparr>dm_to := ''c''\<rparr>) uuid now)) ''a'' ''b-c''
       = [SocketEmit ''a'' ''dm:history''
            (JArr (stored_messages s ''a'' ''b-c''
                   @ [dm_message s ''a-b'' (data\<lparr>dm_to := ''c''\<rparr>) uuid now]))]"
proof -
  have k1: "convId ''a-b'' ''c'' = ''a-b-c''" by (simp add: convId_def)
  have k2: "convId ''a'' ''b-c'' = ''a-b-c''" by (simp add: convId_def)
  have ne: "{''a-b'', ''c''} \<noteq> {''a'', ''b-c''}" by (simp add: doubleton_eq_iff)
  have "stored_messages (fst (dm_send s ''a-b'' (data\<lparr>dm_to := ''c''\<rparr>) uuid now)) ''a'' ''b-c''
      = stored_messages s ''a'' ''b-c'' @ [dm_message s ''a-b'' (data\<lparr>dm_to := ''c''\<rparr>) uuid now]"
    using stored_messages_dm_send [of s "''a-b''" "data\<lparr>dm_to := ''c''\<rparr>" uuid now]
    by (simp add: stored_messages_def k1 k2)
  then show ?thesis using k1 k2 ne by (simp add: dm_history_def)
qed

section \<open>Streams: claims\<close>

text \<open>
  C5. When the stream registered under \<open>streamId\<close> belongs to another connection than
  the one asking, \<^verbatim>\<open>stream:stop\<close> does nothing: the state, and with it the stream, its
  viewers and its other fields, is as before, and nothing is emitted.
\<close>

theorem stop_by_other_is_noop:
  "map_of (streams s) streamId = Some st \<Longrightarrow> st_userId st \<noteq> sid \<Longrightarrow>
   stream_stop s sid streamId = (s, [])"
  by (simp add: stream_stop_def)

theorem stop_by_other_is_noop_witness:
  "map_of (streams (fst (stream_start init_state ''A'' \<lparr>ss_quality = JStr ''hd'', ss_fps = JNum (Num 30)\<rparr>
                           ''1b9d6bcd-bbfd-4b2d-9b5d-ab8dfbbd4bed'' ''2024-01-01T00:00:00.000Z'')))
     ''1b9d6bcd''
     = Some \<lparr>st_id = ''1b9d6bcd'', st_userId = ''A'', st_userName = JUndefined,
             st_userAvatar = JUndefined, st_quality = JStr ''hd'', st_fps = JNum (Num 30),
             st_viewers = [], st_startedAt = ''2024-01-01T00:00:00.000Z''\<rparr>
   \<and> ''A'' \<noteq> ''B''
   \<and> stream_stop (fst (stream_start init_state ''A'' \<lparr>ss_quality = JStr ''hd'', ss_fps = JNum (Num 30)\<rparr>
                           ''1b9d6bcd-bbfd-4b2d-9b5d-ab8dfbbd4bed'' ''2024-01-01T00:00:00.000Z''))
        ''B'' ''1b9d6bcd''
     = (fst (stream_start init_state ''A'' \<lparr>ss_quality = JStr ''hd'', ss_fps = JNum (Num 30)\<rparr>
                           ''1b9d6bcd-bbfd-4b2d-9b5d-ab8dfbbd4bed'' ''2024-01-01T00:00:00.000Z''), [])"
proof -
  let ?s = "fst (stream_start init_state ''A'' \<lparr>ss_quality = JStr ''hd'', ss_fps = JNum (Num 30)\<rparr>
                           ''1b9d6bcd-bbfd-4b2d-9b5d-ab8dfbbd4bed'' ''2024-01-01T00:00:00.000Z'')"
  let ?st = "\<lparr>st_id = ''1b9d6bcd'', st_userId = ''A'', st_userName = JUndefined,
             st_userAvatar = JUndefined, st_quality = JStr ''hd'', st_fps = JNum (Num 30),
             st_viewers = [], st_startedAt = ''2024-01-01T00:00:00.000Z''\<rparr>"
  have m: "map_of (streams ?s) ''1b9d6bcd'' = Some ?st"
    by (simp add: stream_start_def init_state_def opt_get_def Let_def)
  have n: "st_userId ?st \<noteq> ''B''" by simp
  show ?thesis
    using m stop_by_other_is_noop [OF m n] by simp
qed

section \<open>Voice rooms: claims\<close>

lemma not_found_ne_full: "sala_nao_encontrada \<noteq> ''Sala cheia''"
  by (simp add: sala_nao_encontrada_def)

lemma voice_join_success_length:
  "map_of (voiceRooms s) roomId = Some room \<Longrightarrow> \<not> room_full room \<Longrightarrow>
   4 \<le> length (snd (voice_join s sid roomId))"
  by (simp add: voice_join_def Let_def split_beta)

lemma voice_join_success_no_error:
  assumes "map_of (voiceRooms s) roomId = Some room" "\<not> room_full room"
  shows "snd (voice_join s sid roomId) \<noteq> [voice_error sid msg]"
  using voice_join_success_length [OF assms, of sid] by auto

lemma room_full_iff:
  "room_full room = (\<exists>n. r_limit room = Num n \<and> 0 < n \<and> n \<le> int (length (r_users room)))"
  by (simp add: room_full_def split: jsnum.splits)

text \<open>
  C2. The claim asks for two \<^verbatim>\<open>voice:room-updated\<close> notifications when a member of
  one room joins another. Run on connection \<open>A\<close>, member of \<open>general\<close>, joining
  \<open>gaming\<close>, the handler emits a single one, for \<open>gaming\<close>; the vacated room gets a
  \<^verbatim>\<open>voice:user-left\<close> only. \<^verbatim>\<open>voice:leave\<close>, run on the same state, does
  announce the new count of \<open>general\<close>.
\<close>

theorem join_announces_joined_room_only:
  "snd (voice_join (run init_state [VoiceJoin ''A'' ''general'']) ''A'' ''gaming'')
    = [SocketLeave ''A'' ''voice:general'',
       IoTo ''voice:general'' ''voice:user-left''
         (JObj [(''roomId'', JStr ''general''), (''userId'', JStr ''A''), (''userName'', JUndefined)]),
       SocketJoin ''A'' ''voice:gaming'',
       SocketTo ''A'' ''voice:gaming'' ''voice:user-joined''
         (JObj [(''roomId'', JStr ''gaming''), (''userId'', JStr ''A''),
                (''userName'', JUndefined), (''userAvatar'', JUndefined)]),
       SocketEmit ''A'' ''voice:joined''
         (JObj [(''roomId'', JStr ''gaming''),
                (''participants'',
                 JArr [JObj [(''id'', JStr ''A''), (''name'', JUndefined), (''avatar'', JUndefined)]])]),
       IoEmit ''voice:room-updated'' (JObj [(''roomId'', JStr ''gaming''), (''userCount'', JNum (Num 1))])]
  \<and> snd (voice_leave (run init_state [VoiceJoin ''A'' ''general'']) ''A'' ''general'')
    = [SocketLeave ''A'' ''voice:general'',
       IoTo ''voice:general'' ''voice:user-left''
         (JObj [(''roomId'', JStr ''general''), (''userId'', JStr ''A''), (''userName'', JUndefined)]),
       IoEmit ''voice:room-updated'' (JObj [(''roomId'', JStr ''general''), (''userCount'', JNum (Num 0))])]"
  by (simp add: voice_join_def voice_leave_def Let_def room_full_def opt_get_def init_state_def
        set_add_def set_delete_def members_of_def user_left_def room_updated_def)

text \<open>
  C6. \<^verbatim>\<open>voice:join\<close> answers with the room-not-found error exactly when the
  room id is not a key of the room map, and with ``Sala cheia'' exactly when the room is
  there, its limit is a number above 0 and its membership has reached the limit. In both
  cases the state is returned as it was and the error, sent to the caller alone, is the
  only effect; a handler run whose only effect is such an error is one of the two.
\<close>

theorem join_errors_exactly:
  "(voice_join s sid roomId = (s, [voice_error sid sala_nao_encontrada])
      \<longleftrightarrow> map_of (voiceRooms s) roomId = None)
   \<and> (voice_join s sid roomId = (s, [voice_error sid ''Sala cheia''])
      \<longleftrightarrow> (\<exists>room n. map_of (voiceRooms s) roomId = Some room \<and> r_limit room = Num n
                      \<and> 0 < n \<and> n \<le> int (length (r_users room))))
   \<and> ((\<exists>msg. snd (voice_join s sid roomId) = [voice_error sid msg])
      \<longrightarrow> voice_join s sid roomId = (s, [voice_error sid sala_nao_encontrada])
          \<or> voice_join s sid roomId = (s, [voice_error sid ''Sala cheia'']))
   \<and> recipients conns joined (voice_error sid msg') = filter (\<lambda>c. c = sid) conns"
proof (cases "map_of (voiceRooms s) roomId")
  case None
  then have "voice_join s sid roomId = (s, [voice_error sid sala_nao_encontrada])"
    by (simp add: voice_join_def)
  then show ?thesis using None by (simp add: voice_error_def not_found_ne_full)
next
  case (Some room)
  show ?thesis
  proof (cases "room_full room")
    case True
    then have "voice_join s sid roomId = (s, [voice_error sid ''Sala cheia''])"
      using Some by (simp add: voice_join_def)
    then show ?thesis using Some True
      by (simp add: voice_error_def not_found_ne_full [symmetric] room_full_iff)
  next
    case False
    have ne: "snd (voice_join s sid roomId) \<noteq> [voice_error sid msg]" for msg
      by (rule voice_join_success_no_error [OF Some False])
    then have "voice_join s sid roomId \<noteq> (s, [voice_error sid msg])" for msg
      by (metis snd_conv)
    then show ?thesis using Some False ne by (simp add: room_full_iff) (simp add: voice_error_def)
  qed
qed

theorem join_errors_exactly_witness:
  "(\<exists>room n. map_of (voiceRooms (run init_state
        [VoiceCreateRoom ''A'' \<lparr>cr_name = JStr ''Duo'', cr_limit = JNum (Num 1)\<rparr>
           ''1b9d6bcd-bbfd-4b2d-9b5d-ab8dfbbd4bed'',
         VoiceJoin ''B'' ''1b9d6bcd''])) ''1b9d6bcd'' = Some room
       \<and> r_limit room = Num n \<and> 0 < n \<and> n \<le> int (length (r_users room)))
   \<and> (\<exists>msg. snd (voice_join (run init_state
        [VoiceCreateRoom ''A'' \<lparr>cr_name = JStr ''Duo'', cr_limit = JNum (Num 1)\<rparr>
           ''1b9d6bcd-bbfd-4b2d-9b5d-ab8dfbbd4bed'',
         VoiceJoin ''B'' ''1b9d6bcd'']) ''C'' ''1b9d6bcd'') = [voice_error ''C'' msg])
   \<and> voice_join (run init_state
        [VoiceCreateRoom ''A'' \<lparr>cr_name = JStr ''Duo'', cr_limit = JNum (Num 1)\<rparr>
           ''1b9d6bcd-bbfd-4b2d-9b5d-ab8dfbbd4bed'',
         VoiceJoin ''B'' ''1b9d6bcd'']) ''C'' ''1b9d6bcd''
     = (run init_state
        [VoiceCreateRoom ''A'' \<lparr>cr_name = JStr ''Duo'', cr_limit = JNum (Num 1)\<rparr>
           ''1b9d6bcd-bbfd-4b2d-9b5d-ab8dfbbd4bed'',
         VoiceJoin ''B'' ''1b9d6bcd''], [voice_error ''C'' ''Sala cheia''])"
proof -
  let ?s = "run init_state
        [VoiceCreateRoom ''A'' \<lparr>cr_name = JStr ''Duo'', cr_limit = JNum (Num 1)\<rparr>
           ''1b9d6bcd-bbfd-4b2d-9b5d-ab8dfbbd4bed'',
         VoiceJoin ''B'' ''1b9d6bcd'']"
  have m: "map_of (voiceRooms ?s) ''1b9d6bcd''
             = Some \<lparr>r_name = JStr ''Duo'', r_users = [''B''], r_limit = Num 1, r_createdBy = Some ''A''\<rparr>"
    by (simp add: voice_create_room_def voice_join_def Let_def room_full_def init_state_def
          set_add_def set_delete_def)
  have full: "\<exists>room n. map_of (voiceRooms ?s) ''1b9d6bcd'' = Some room
                \<and> r_limit room = Num n \<and> 0 < n \<and> n \<le> int (length (r_users room))"
    unfolding m by simp
  have j: "voice_join ?s ''C'' ''1b9d6bcd'' = (?s, [voice_error ''C'' ''Sala cheia''])"
    using join_errors_exactly [of ?s "''C''" "''1b9d6bcd''"] full by blast
  have "\<exists>msg. snd (voice_join ?s ''C'' ''1b9d6bcd'') = [voice_error ''C'' msg]"
    unfolding j snd_conv by (rule exI) (rule refl)
  with full j show ?thesis by blast
qed





section \<open>Presence: claims\<close>

lemma map_of_spread_absent:
  "k \<notin> fst ` set b \<Longrightarrow> map_of (spread a b) k = map_of a k"
proof (induction b arbitrary: a)
  case Nil
  then show ?case by (simp add: spread_def)
next
  case (Cons p b)
  obtain k' v' where p: "p = (k', v')" by (cases p)
  from Cons.prems have ne: "k' \<noteq> k" and nb: "k \<notin> fst ` set b" by (auto simp: p)
  have "map_of (spread a (p # b)) k = map_of (spread (AList.update k' v' a) b) k"
    by (simp add: spread_def p)
  also have "\<dots> = map_of (AList.update k' v' a) k"
    using Cons.IH [OF nb] .
  also have "\<dots> = map_of a k"
    using ne by (simp add: update_conv')
  finally show ?case .
qed

lemma map_of_spread_present:
  "distinct (map fst b) \<Longrightarrow> (k, v) \<in> set b \<Longrightarrow> map_of (spread a b) k = Some v"
proof (induction b arbitrary: a)
  case Nil
  then show ?case by simp
next
  case (Cons p b)
  obtain k' v' where p: "p = (k', v')" by (cases p)
  have step: "map_of (spread a (p # b)) k = map_of (spread (AList.update k' v' a) b) k"
    by (simp add: spread_def p)
  from Cons.prems have d: "distinct (map fst b)" and nk: "k' \<notin> fst ` set b"
    by (simp_all add: p)
  show ?case
  proof (cases "(k, v) \<in> set b")
    case True
    then show ?thesis using Cons.IH [OF d True] step by simp
  next
    case False
    with Cons.prems have e: "k' = k" "v' = v" by (auto simp: p)
    have "map_of (spread (AList.update k' v' a) b) k = map_of (AList.update k' v' a) k"
      using nk e by (simp add: map_of_spread_absent)
    then show ?thesis using step e by (simp add: update_conv')
  qed
qed

text \<open>
  C8. The claim has the caller left out of the ``online'' notification. The handler
  emits it with \<^verbatim>\<open>io.emit\<close>: with \<open>c1\<close> and \<open>c2\<close> connected, the login of \<open>c1\<close>
  is announced to \<open>c1\<close> as well.
\<close>

theorem login_online_reaches_caller:
  "hd (snd (user_login init_state ''c1'' [(''name'', JStr ''Alice'')]))
     = IoEmit ''user:online''
         (JObj [(''id'', JStr ''c1''), (''name'', JStr ''Alice''), (''status'', JStr ''online'')])
   \<and> ''c1'' \<in> set (recipients [''c1'', ''c2''] []
                      (hd (snd (user_login init_state ''c1'' [(''name'', JStr ''Alice'')]))))"
  by (simp add: user_login_def Let_def obj_get_def)

text \<open>
  C8, as the code has it. \<^verbatim>\<open>user:login\<close> has two effects, in this order: the
  ``online'' notification, which goes to every connection, and the list of all user
  records after the login, which goes to no one but the caller.
\<close>

theorem login_notifies_all_and_lists_to_caller:
  "snd (user_login s sid userData) =
     [IoEmit ''user:online''
        (JObj [(''id'', JStr sid), (''name'', obj_get userData ''name''), (''status'', JStr ''online'')]),
      SocketEmit sid ''users:list''
        (JArr (map (\<lambda>(_, u). JObj u) (users (fst (user_login s sid userData)))))]
   \<and> recipients conns joined (IoEmit ''user:online'' p) = conns
   \<and> set (recipients conns joined (SocketEmit sid ''users:list'' q)) \<subseteq> {sid}"
  by (auto simp: user_login_def Let_def)

text \<open>
  C10. The payload is spread after the defaults, so every property of the payload is a
  property of the stored record with the payload's value: a \<^verbatim>\<open>name\<close> that is null or
  empty is stored as it is, not replaced by the default name, and \<^verbatim>\<open>id\<close> and
  \<^verbatim>\<open>status\<close> sent by the client replace the socket id and \<^verbatim>\<open>'online'\<close>. An
  object has each key once.
\<close>

theorem login_payload_overrides_defaults:
  "distinct (map fst userData) \<Longrightarrow> (k, v) \<in> set userData \<Longrightarrow>
   opt_get (map_of (users (fst (user_login s sid userData))) sid) k = v
   \<and> (k = ''name'' \<and> \<not> truthy v \<longrightarrow>
        opt_get (map_of (users (fst (user_login s sid userData))) sid) ''name'' \<noteq> JStr anonimo)"
proof -
  assume d: "distinct (map fst userData)" and m: "(k, v) \<in> set userData"
  have g: "opt_get (map_of (users (fst (user_login s sid userData))) sid) k = v"
    by (simp add: user_login_def Let_def update_conv' opt_get_def obj_get_def
          map_of_spread_present [OF d m])
  have "truthy (JStr anonimo)"
    by (simp add: anonimo_def)
  with g show ?thesis by auto
qed

theorem login_payload_overrides_defaults_witness:
  "distinct (map fst [(''name'', JNull), (''id'', JStr ''evil''), (''status'', JStr ''busy'')])
   \<and> (''name'', JNull) \<in> set [(''name'', JNull), (''id'', JStr ''evil''), (''status'', JStr ''busy'')]
   \<and> \<not> truthy JNull
   \<and> opt_get (map_of (users (fst (user_login init_state ''c1''
               [(''name'', JNull), (''id'', JStr ''evil''), (''status'', JStr ''busy'')]))) ''c1'') ''name''
       = JNull
   \<and> opt_get (map_of (users (fst (user_login init_state ''c1''
               [(''name'', JNull), (''id'', JStr ''evil''), (''status'', JStr ''busy'')]))) ''c1'') ''name''
       \<noteq> JStr anonimo"
proof -
  let ?p = "[(''name'', JNull), (''id'', JStr ''evil''), (''status'', JStr ''busy'')]"
  have d: "distinct (map fst ?p)" by simp
  have m: "(''name'', JNull) \<in> set ?p" by simp
  show ?thesis
    using d m login_payload_overrides_defaults [OF d m, of init_state "''c1''"] by simp
qed

section \<open>Disconnect: claims\<close>

lemma drop_rooms_none:
  "filter (holds sid) rooms = [] \<Longrightarrow> drop_rooms sid u rooms = (rooms, [])"
proof (induction rooms)
  case Nil
  then show ?case by simp
next
  case (Cons p rooms)
  obtain rid r where p: "p = (rid, r)" by (cases p)
  from Cons.prems have np: "\<not> holds sid p" and e: "filter (holds sid) rooms = []"
    by (simp_all split: if_splits)
  from np have "sid \<notin> set (r_users r)" by (simp add: holds_def p)
  then show ?case using Cons.IH [OF e] by (simp add: p)
qed

lemma end_streams_twice:
  "end_streams sid (fst (end_streams sid xs)) = (fst (end_streams sid xs), [])"
proof (induction xs)
  case Nil
  then show ?case by simp
next
  case (Cons p xs)
  obtain k st where p: "p = (k, st)" by (cases p)
  obtain rest effs where l: "end_streams sid xs = (rest, effs)" by (cases "end_streams sid xs")
  from Cons l have ih: "end_streams sid rest = (rest, [])" by simp
  show ?case
  proof (cases "st_userId st = sid")
    case True
    then show ?thesis using ih by (simp add: p l)
  next
    case False
    then show ?thesis using ih by (simp add: p l set_delete_def)
  qed
qed

lemma disconnect_twice:
  "disconnect (fst (disconnect s sid)) sid = (fst (disconnect s sid), [user_offline sid])"
proof -
  let ?s1 = "fst (disconnect s sid)"
  have r: "voiceRooms ?s1 = map (clear sid) (voiceRooms s)"
    by (rule voiceRooms_disconnect)
  have dr: "drop_rooms sid u (voiceRooms ?s1) = (voiceRooms ?s1, [])" for u
    unfolding r by (rule drop_rooms_none) (rule filter_clear_self)
  have st: "streams ?s1 = fst (end_streams sid (streams s))"
    by (simp add: disconnect_def Let_def split_beta)
  have es: "end_streams sid (streams ?s1) = (streams ?s1, [])"
    unfolding st by (rule end_streams_twice)
  have us: "users ?s1 = AList.delete sid (users s)"
    by (simp add: disconnect_def Let_def split_beta)
  have ud: "AList.delete sid (users ?s1) = users ?s1"
    unfolding us by (rule delete_idem)
  have "disconnect ?s1 sid
          = (?s1\<lparr>voiceRooms := voiceRooms ?s1, streams := streams ?s1, users := users ?s1\<rparr>,
             [user_offline sid])"
    unfolding disconnect_def [of ?s1 sid] Let_def dr es ud by simp
  then show ?thesis by simp
qed

text \<open>
  C3. The claim has the second run of the disconnect step emit nothing. For \<open>A\<close>, logged
  in and member of \<open>general\<close>, the second run emits the ``offline'' notification again.
\<close>

theorem second_disconnect_emits_offline:
  "snd (disconnect (fst (disconnect (run init_state
          [UserLogin ''A'' [(''name'', JStr ''Alice'')], VoiceJoin ''A'' ''general'']) ''A'')) ''A'')
   = [IoEmit ''user:offline'' (JObj [(''id'', JStr ''A'')])]"
  by (simp add: disconnect_twice user_offline_def)

text \<open>
  C3, as the code has it. A second run of the disconnect step for the same id leaves the
  state (users, rooms, streams and conversations) as the first run left it, and its only
  effect is the ``offline'' broadcast for that id, which the handler emits
  unconditionally.
\<close>

theorem second_disconnect_keeps_state:
  "disconnect (fst (disconnect s sid)) sid
     = (fst (disconnect s sid), [IoEmit ''user:offline'' (JObj [(''id'', JStr sid)])])"
  by (simp add: disconnect_twice user_offline_def)

end
